theory Spec2Isabelle
  imports Main
begin

section \<open>The markdown linter of shebangMarkdownIDE\<close>

text \<open>
  This theory embeds the method \<open>_lint_markdown\<close> of \<open>src/shebangMarkdownIDE/app.py\<close>
  (lines 717 to 808) and the string and regular-expression operations it calls.

  A Python \<open>str\<close> is modelled as a \<open>string\<close>: one \<open>char\<close> per code point, for the code
  points below 256. Python integers are \<open>int\<close>. A call that Python would answer with an
  exception has the value \<open>Inl\<close> of that exception, and a method that writes to the
  application object returns the object as it leaves it, also when it raises.
\<close>

subsection \<open>Python string operations\<close>

text \<open>The line feed, the separator of \<open>text.split('\n')\<close>.\<close>

abbreviation NL :: char where
  "NL \<equiv> CHR 0x0A"

text \<open>
  \<open>str.isspace\<close> on one code point below 256: tab, line feed, vertical tab, form feed,
  carriage return, the four separators 0x1C to 0x1F, space, NEL (0x85) and the no-break
  space (0xA0).
\<close>

definition isspace :: "char \<Rightarrow> bool" where
  "isspace c = (c \<in> {CHR 0x09, CHR 0x0A, CHR 0x0B, CHR 0x0C, CHR 0x0D,
                     CHR 0x1C, CHR 0x1D, CHR 0x1E, CHR 0x1F, CHR 0x20,
                     CHR 0x85, CHR 0xA0})"

text \<open>\<open>s.strip()\<close>: whitespace removed at both ends.\<close>

definition strip :: "string \<Rightarrow> string" where
  "strip s = rev (dropWhile isspace (rev (dropWhile isspace s)))"

text \<open>\<open>s.lstrip(chars)\<close>: the leading characters that occur in \<open>chars\<close> removed.\<close>

definition lstrip :: "string \<Rightarrow> string \<Rightarrow> string" where
  "lstrip s chars = dropWhile (\<lambda>c. c \<in> set chars) s"

text \<open>\<open>s.startswith(p)\<close>.\<close>

definition startswith :: "string \<Rightarrow> string \<Rightarrow> bool" where
  "startswith s p = (take (length p) s = p)"

text \<open>\<open>s.split(sep)\<close> for a separator of one character: never the empty list.\<close>

fun split :: "string \<Rightarrow> char \<Rightarrow> string list" where
  "split [] sep = [[]]"
| "split (c # cs) sep =
     (if c = sep then [] # split cs sep
      else (case split cs sep of
              [] \<Rightarrow> [[c]]
            | l # ls \<Rightarrow> (c # l) # ls))"

text \<open>\<open>str(n)\<close> for an integer, as the f-strings of the messages format it.\<close>

fun str_nat :: "nat \<Rightarrow> string" where
  "str_nat n =
     (if n < 10 then [''0123456789'' ! n]
      else str_nat (n div 10) @ [''0123456789'' ! (n mod 10)])"

declare str_nat.simps [simp del]

definition str :: "int \<Rightarrow> string" where
  "str i = (if i < 0 then ''-'' @ str_nat (nat (- i)) else str_nat (nat i))"

subsection \<open>Subscripts\<close>

text \<open>
  The exceptions: \<open>IndexError\<close> of a list subscript, and \<open>NoMatches\<close>, which the widget
  toolkit raises when \<open>query_one\<close> finds no widget.
\<close>

datatype py_error = IndexError | NoMatches

text \<open>\<open>xs[i]\<close>: a negative index counts from the end, an index out of range raises.\<close>

definition getitem :: "'a list \<Rightarrow> int \<Rightarrow> py_error + 'a" where
  "getitem xs i =
     (if 0 \<le> i \<and> i < int (length xs) then Inr (xs ! nat i)
      else if - int (length xs) \<le> i \<and> i < 0 then Inr (xs ! nat (int (length xs) + i))
      else Inl IndexError)"

subsection \<open>The two regular expressions\<close>

text \<open>
  A match object: \<open>group(0)\<close>, \<open>group(1)\<close>, \<open>group(2)\<close>.
\<close>

record re_match =
  group0 :: string
  group1 :: string
  group2 :: string

text \<open>
  The link pattern \<^verbatim>\<open>\[([^\]]+)\]\(([^)]+)\)\<close> tried at the start of \<open>s\<close>; the result is
  the match and the text after it. The pattern is an opening bracket, one or more
  characters other than a closing bracket, the two characters \<^verbatim>\<open>](\<close>, one or more
  characters other than a closing parenthesis, and a closing parenthesis. Each of the two
  greedy classes excludes the very character that has to follow it, so the only length
  with which the rest of the pattern can match is the longest run, and backtracking to a
  shorter run never succeeds: the match at a position is unique.
\<close>

definition match_link :: "string \<Rightarrow> (re_match \<times> string) option" where
  "match_link s =
     (case s of
        [] \<Rightarrow> None
      | c # s1 \<Rightarrow>
          if c \<noteq> CHR ''['' then None
          else
            let g1 = takeWhile (\<lambda>x. x \<noteq> CHR '']'') s1;
                s2 = dropWhile (\<lambda>x. x \<noteq> CHR '']'') s1
            in if g1 = [] \<or> \<not> startswith s2 '']('' then None
               else
                 let s3 = drop 2 s2;
                     g2 = takeWhile (\<lambda>x. x \<noteq> CHR '')'') s3;
                     s4 = dropWhile (\<lambda>x. x \<noteq> CHR '')'') s3
                 in if g2 = [] \<or> \<not> startswith s4 '')'' then None
                    else Some (\<lparr>group0 = ''['' @ g1 @ '']('' @ g2 @ '')'',
                                group1 = g1, group2 = g2\<rparr>, drop 1 s4))"

text \<open>
  The image pattern \<^verbatim>\<open>!\[([^\]]*)\]\(([^)]+)\)\<close> tried at the start of \<open>s\<close>: as the link
  pattern after an exclamation mark, with an alternative text that may be empty.
\<close>

definition match_img :: "string \<Rightarrow> (re_match \<times> string) option" where
  "match_img s =
     (case s of
        [] \<Rightarrow> None
      | c # s0 \<Rightarrow>
          if c \<noteq> CHR ''!'' \<or> \<not> startswith s0 ''['' then None
          else
            let s1 = drop 1 s0;
                g1 = takeWhile (\<lambda>x. x \<noteq> CHR '']'') s1;
                s2 = dropWhile (\<lambda>x. x \<noteq> CHR '']'') s1
            in if \<not> startswith s2 '']('' then None
               else
                 let s3 = drop 2 s2;
                     g2 = takeWhile (\<lambda>x. x \<noteq> CHR '')'') s3;
                     s4 = dropWhile (\<lambda>x. x \<noteq> CHR '')'') s3
                 in if g2 = [] \<or> \<not> startswith s4 '')'' then None
                    else Some (\<lparr>group0 = ''!['' @ g1 @ '']('' @ g2 @ '')'',
                                group1 = g1, group2 = g2\<rparr>, drop 1 s4))"

text \<open>
  \<open>re.finditer(pattern, line)\<close>: the matches from left to right, without overlap. The
  scan tries the pattern at the current position; after a match it goes on behind the
  match, otherwise one character further. Neither pattern matches the empty string.
\<close>

function finditer_link :: "string \<Rightarrow> re_match list" where
  "finditer_link [] = []"
| "finditer_link (c # cs) =
     (case match_link (c # cs) of
        None \<Rightarrow> finditer_link cs
      | Some (m, r) \<Rightarrow> m # finditer_link r)"
  by pat_completeness auto
termination
proof -
  have shorter: "length r < length s" if "match_link s = Some (m, r)" for s m r
  proof -
    from that obtain c s1 where s: "s = c # s1"
      and r: "r = drop 1 (dropWhile (\<lambda>x. x \<noteq> CHR '')'')
                   (drop 2 (dropWhile (\<lambda>x. x \<noteq> CHR '']'') s1)))"
      by (auto simp: match_link_def Let_def split: list.splits if_splits)
    have "length r \<le> length (dropWhile (\<lambda>x. x \<noteq> CHR '']'') s1)"
      unfolding r
      using length_dropWhile_le
        [of "\<lambda>x. x \<noteq> CHR '')''" "drop 2 (dropWhile (\<lambda>x. x \<noteq> CHR '']'') s1)"]
      by simp
    also have "\<dots> \<le> length s1"
      by (rule length_dropWhile_le)
    finally show ?thesis
      by (simp add: s)
  qed
  show ?thesis
    by (relation "measure length") (auto dest: shorter)
qed

function finditer_img :: "string \<Rightarrow> re_match list" where
  "finditer_img [] = []"
| "finditer_img (c # cs) =
     (case match_img (c # cs) of
        None \<Rightarrow> finditer_img cs
      | Some (m, r) \<Rightarrow> m # finditer_img r)"
  by pat_completeness auto
termination
proof -
  have shorter: "length r < length s" if "match_img s = Some (m, r)" for s m r
  proof -
    from that obtain c s0 where s: "s = c # s0"
      and r: "r = drop 1 (dropWhile (\<lambda>x. x \<noteq> CHR '')'')
                   (drop 2 (dropWhile (\<lambda>x. x \<noteq> CHR '']'') (drop 1 s0))))"
      by (auto simp: match_img_def Let_def split: list.splits if_splits)
    have "length r \<le> length (dropWhile (\<lambda>x. x \<noteq> CHR '']'') (drop 1 s0))"
      unfolding r
      using length_dropWhile_le
        [of "\<lambda>x. x \<noteq> CHR '')''"
            "drop 2 (dropWhile (\<lambda>x. x \<noteq> CHR '']'') (drop 1 s0))"]
      by simp
    also have "\<dots> \<le> length (drop 1 s0)"
      by (rule length_dropWhile_le)
    also have "\<dots> \<le> length s0"
      by simp
    finally show ?thesis
      by (simp add: s)
  qed
  show ?thesis
    by (relation "measure length") (auto dest: shorter)
qed

subsection \<open>Lint issues and the application state\<close>

text \<open>
  An issue is the dictionary with the keys \<open>'line'\<close>, \<open>'type'\<close> and \<open>'message'\<close> that the
  linter appends to its list.
\<close>

record issue =
  issue_line :: int
  issue_type :: string
  issue_message :: string

text \<open>
  The part of the application object that \<open>_lint_markdown\<close> touches. The dictionary
  \<open>self.lint_issues\<close> maps an editor id to its issues. The widgets belong to the toolkit
  and are state here: the text of the label \<open>#status-bar\<close>, if that label is mounted, and
  the active pane of \<open>self.tabs\<close>, if there is one, with the \<open>TextArea\<close> and the
  \<open>Markdown\<close> widget that are mounted under it. A widget is known by its \<open>id\<close>, which may
  be \<open>None\<close>.
\<close>

record widget =
  widget_id :: "string option"

record tab_pane =
  pane_text_area :: "widget option"
  pane_markdown :: "widget option"

record app =
  lint_issues :: "string \<rightharpoonup> issue list"
  status_bar :: "string option"
  active_pane :: "tab_pane option"

subsection \<open>The first loop: header spacing, heading level, links, images, tables\<close>

text \<open>Lines 724 to 732: a header directly followed by content.\<close>

definition check_header_spacing ::
  "string list \<Rightarrow> int \<Rightarrow> string \<Rightarrow> issue list \<Rightarrow> py_error + issue list" where
  "check_header_spacing lines i line issues =
     (if i < int (length lines) \<and> startswith line ''#'' then
        (case (if i < int (length lines) then getitem lines i else Inr []) of
           Inl e \<Rightarrow> Inl e
         | Inr next_line \<Rightarrow>
             if next_line \<noteq> [] \<and> \<not> strip next_line = [] \<and> \<not> startswith next_line ''#''
             then Inr (issues @
                    [\<lparr>issue_line = i + 1, issue_type = ''warning'',
                      issue_message =
                        ''Consider adding blank line after header at line '' @ str i\<rparr>])
             else Inr issues)
      else Inr issues)"

text \<open>Lines 734 to 742: more than six leading hashes, from the fourth line on.\<close>

definition check_heading_level :: "int \<Rightarrow> string \<Rightarrow> issue list \<Rightarrow> issue list" where
  "check_heading_level i line issues =
     (if startswith line ''#'' \<and> i > 3 then
        let level = int (length line) - int (length (lstrip line ''#''))
        in if level > 6
           then issues @
                  [\<lparr>issue_line = i, issue_type = ''error'',
                    issue_message =
                      ''Invalid heading level '' @ str level @ '' at line '' @ str i
                        @ '' (max is 6)''\<rparr>]
           else issues
      else issues)"

text \<open>Lines 744 to 754: the inner loop over the link matches of one line.\<close>

fun check_links :: "int \<Rightarrow> re_match list \<Rightarrow> issue list \<Rightarrow> issue list" where
  "check_links i [] issues = issues"
| "check_links i (m # matches) issues =
     (let url = group2 m
      in if strip url = []
         then check_links i matches
                (issues @
                   [\<lparr>issue_line = i, issue_type = ''error'',
                     issue_message =
                       ''Empty link URL at line '' @ str i @ '': '' @ group0 m\<rparr>])
         else check_links i matches issues)"

text \<open>Lines 756 to 766: the inner loop over the image matches of one line.\<close>

fun check_images :: "int \<Rightarrow> re_match list \<Rightarrow> issue list \<Rightarrow> issue list" where
  "check_images i [] issues = issues"
| "check_images i (m # img_matches) issues =
     (let alt_text = group1 m
      in if alt_text = [] \<or> strip alt_text = []
         then check_images i img_matches
                (issues @
                   [\<lparr>issue_line = i, issue_type = ''warning'',
                     issue_message =
                       ''Image without alt text at line '' @ str i
                         @ '' (accessibility issue)''\<rparr>])
         else check_images i img_matches issues)"

text \<open>
  Lines 768 to 776: a table row that does not start with a bar. The condition of the
  inner \<open>if\<close> is the conditional expression
  \<open>(i > 1 and '|' in lines[i-2]) if i > 1 else False\<close>.
\<close>

definition check_table_row ::
  "string list \<Rightarrow> int \<Rightarrow> string \<Rightarrow> issue list \<Rightarrow> py_error + issue list" where
  "check_table_row lines i line issues =
     (if CHR ''|'' \<in> set line \<and> \<not> startswith (strip line) ''|'' then
        (case (if i > 1
               then (if i > 1
                     then (case getitem lines (i - 2) of
                             Inl e \<Rightarrow> Inl e
                           | Inr prev \<Rightarrow> Inr (CHR ''|'' \<in> set prev))
                     else Inr False)
               else Inr False) of
           Inl e \<Rightarrow> Inl e
         | Inr b \<Rightarrow>
             if b
             then Inr (issues @
                    [\<lparr>issue_line = i, issue_type = ''warning'',
                      issue_message =
                        ''Table row at line '' @ str i @ '' should start with |''\<rparr>])
             else Inr issues)
      else Inr issues)"

text \<open>The body of the first loop, for the line \<open>line\<close> at the 1-based position \<open>i\<close>.\<close>

definition lint_line ::
  "string list \<Rightarrow> int \<Rightarrow> string \<Rightarrow> issue list \<Rightarrow> py_error + issue list" where
  "lint_line lines i line issues =
     (case check_header_spacing lines i line issues of
        Inl e \<Rightarrow> Inl e
      | Inr issues1 \<Rightarrow>
          check_table_row lines i line
            (check_images i (finditer_img line)
               (check_links i (finditer_link line)
                  (check_heading_level i line issues1))))"

text \<open>
  \<open>for i, line in enumerate(lines, 1)\<close>: the third argument is what is left of
  \<open>lines\<close>, and \<open>i\<close> the position of its head.
\<close>

fun lint_loop1 ::
  "string list \<Rightarrow> int \<Rightarrow> string list \<Rightarrow> issue list \<Rightarrow> py_error + issue list" where
  "lint_loop1 lines i [] issues = Inr issues"
| "lint_loop1 lines i (line # rest) issues =
     (case lint_line lines i line issues of
        Inl e \<Rightarrow> Inl e
      | Inr issues' \<Rightarrow> lint_loop1 lines (i + 1) rest issues')"

subsection \<open>The second loop: content directly after a code block\<close>

text \<open>
  Lines 781 to 790: the body of the second loop, on the flag \<open>in_code_block\<close> and the
  issues.
\<close>

definition check_code_fence ::
  "string list \<Rightarrow> int \<Rightarrow> string \<Rightarrow> bool \<times> issue list \<Rightarrow> py_error + bool \<times> issue list"
  where
  "check_code_fence lines i line st =
     (case st of (in_code_block, issues) \<Rightarrow>
        if startswith (strip line) ''```'' then
          let in_code_block' = \<not> in_code_block
          in if \<not> in_code_block' \<and> i < int (length lines) then
               (case (if i < int (length lines) then getitem lines i else Inr []) of
                  Inl e \<Rightarrow> Inl e
                | Inr next_line \<Rightarrow>
                    if next_line \<noteq> [] \<and> \<not> strip next_line = []
                    then Inr (in_code_block', issues @
                           [\<lparr>issue_line = i + 1, issue_type = ''warning'',
                             issue_message =
                               ''Consider adding blank line after code block at line ''
                                 @ str i\<rparr>])
                    else Inr (in_code_block', issues))
             else Inr (in_code_block', issues)
        else Inr (in_code_block, issues))"

fun lint_loop2 ::
  "string list \<Rightarrow> int \<Rightarrow> string list \<Rightarrow> bool \<times> issue list \<Rightarrow> py_error + bool \<times> issue list"
  where
  "lint_loop2 lines i [] st = Inr st"
| "lint_loop2 lines i (line # rest) st =
     (case check_code_fence lines i line st of
        Inl e \<Rightarrow> Inl e
      | Inr st' \<Rightarrow> lint_loop2 lines (i + 1) rest st')"

subsection \<open>The linter\<close>

text \<open>Lines 719 to 790: the issues that \<open>_lint_markdown\<close> computes for a text.\<close>

definition lint :: "string \<Rightarrow> py_error + issue list" where
  "lint text =
     (let issues = [];
          lines = split text NL
      in case lint_loop1 lines 1 lines issues of
           Inl e \<Rightarrow> Inl e
         | Inr issues1 \<Rightarrow>
             (case lint_loop2 lines 1 lines (False, issues1) of
                Inl e \<Rightarrow> Inl e
              | Inr (in_code_block, issues2) \<Rightarrow> Inr issues2))"

subsection \<open>Storing the report and the status bar\<close>

text \<open>
  \<open>query_one\<close> of the toolkit on a place of the widget tree: the widget mounted there, or
  \<open>NoMatches\<close> when there is none.
\<close>

definition query_one :: "'a option \<Rightarrow> py_error + 'a" where
  "query_one w = (case w of None \<Rightarrow> Inl NoMatches | Some x \<Rightarrow> Inr x)"

text \<open>
  Lines 672 to 674, \<open>_set_status\<close>: the label is looked up and, when it is there, gets the
  new text. The result is the outcome, an exception or the return value \<open>None\<close>, and the
  application afterwards.
\<close>

definition set_status :: "string \<Rightarrow> app \<Rightarrow> (py_error + unit) \<times> app" where
  "set_status text self =
     (case query_one (status_bar self) of
        Inl e \<Rightarrow> (Inl e, self)
      | Inr status \<Rightarrow> (Inr (), self\<lparr>status_bar := Some text\<rparr>))"

text \<open>
  Lines 914 to 921, \<open>_current_editor_and_preview\<close>: without an active pane the pair of
  two \<open>None\<close>, otherwise the two widgets of the pane, each looked up with \<open>query_one\<close>.
\<close>

definition current_editor_and_preview ::
  "app \<Rightarrow> py_error + widget option \<times> widget option" where
  "current_editor_and_preview self =
     (case active_pane self of
        None \<Rightarrow> Inr (None, None)
      | Some pane \<Rightarrow>
          (case query_one (pane_text_area pane) of
             Inl e \<Rightarrow> Inl e
           | Inr editor \<Rightarrow>
               (case query_one (pane_markdown pane) of
                  Inl e \<Rightarrow> Inl e
                | Inr preview \<Rightarrow> Inr (Some editor, Some preview))))"

text \<open>Lines 923 to 925, \<open>_active_editor_id\<close>: \<open>editor.id if editor else None\<close>.\<close>

definition active_editor_id :: "app \<Rightarrow> py_error + string option" where
  "active_editor_id self =
     (case current_editor_and_preview self of
        Inl e \<Rightarrow> Inl e
      | Inr (editor, preview) \<Rightarrow>
          Inr (case editor of None \<Rightarrow> None | Some w \<Rightarrow> widget_id w))"

text \<open>
  The method \<open>_lint_markdown\<close>, lines 717 to 808. After the two loops the issues are
  stored under the editor id (line 793). Then, with an issue, the status bar is set to
  the counts; with no issue the active editor is read and nothing is changed (lines 796
  to 808). Both continuations call the toolkit and can raise, and the store of line 793
  has then already happened.
\<close>

definition lint_markdown :: "string \<Rightarrow> string \<Rightarrow> app \<Rightarrow> (py_error + unit) \<times> app" where
  "lint_markdown editor_id text self =
     (case lint text of
        Inl e \<Rightarrow> (Inl e, self)
      | Inr issues \<Rightarrow>
          let self1 = self\<lparr>lint_issues := (lint_issues self)(editor_id \<mapsto> issues)\<rparr>
          in if issues \<noteq> [] then
               let errors =
                     int (length (filter (\<lambda>issue. issue_type issue = ''error'') issues));
                   warnings =
                     int (length (filter (\<lambda>issue. issue_type issue = ''warning'') issues))
               in if errors > 0
                  then set_status
                         (''Lint: '' @ str errors @ '' error(s), '' @ str warnings
                            @ '' warning(s) | Press Ctrl+L for details'') self1
                  else set_status
                         (''Lint: '' @ str warnings
                            @ '' warning(s) | Press Ctrl+L for details'') self1
             else
               (case active_editor_id self1 of
                  Inl e \<Rightarrow> (Inl e, self1)
                | Inr current_editor \<Rightarrow>
                    if current_editor = Some editor_id then (Inr (), self1)
                    else (Inr (), self1)))"

subsection \<open>What each rule finds\<close>

text \<open>
  The issues that one rule appends for one line, read off by running the rule's code on
  the empty list; the issues of a line are those of the five rules of the first loop in
  the order of the loop body.
\<close>

definition the_issues :: "py_error + issue list \<Rightarrow> issue list" where
  "the_issues r = (case r of Inl e \<Rightarrow> [] | Inr issues \<Rightarrow> issues)"

definition header_findings :: "string list \<Rightarrow> int \<Rightarrow> string \<Rightarrow> issue list" where
  "header_findings lines i line = the_issues (check_header_spacing lines i line [])"

definition heading_findings :: "int \<Rightarrow> string \<Rightarrow> issue list" where
  "heading_findings i line = check_heading_level i line []"

definition link_findings :: "int \<Rightarrow> string \<Rightarrow> issue list" where
  "link_findings i line = check_links i (finditer_link line) []"

definition image_findings :: "int \<Rightarrow> string \<Rightarrow> issue list" where
  "image_findings i line = check_images i (finditer_img line) []"

definition table_findings :: "string list \<Rightarrow> int \<Rightarrow> string \<Rightarrow> issue list" where
  "table_findings lines i line = the_issues (check_table_row lines i line [])"

definition line_findings :: "string list \<Rightarrow> int \<Rightarrow> string \<Rightarrow> issue list" where
  "line_findings lines i line =
     header_findings lines i line @ heading_findings i line @ link_findings i line
       @ image_findings i line @ table_findings lines i line"

definition fence_findings :: "string list \<Rightarrow> int \<Rightarrow> string \<Rightarrow> bool \<Rightarrow> issue list" where
  "fence_findings lines i line in_code_block =
     (case check_code_fence lines i line (in_code_block, []) of
        Inl e \<Rightarrow> []
      | Inr (b, issues) \<Rightarrow> issues)"

text \<open>
  The condition of the second loop on a line, and the value of \<open>in_code_block\<close> after
  the first \<open>k\<close> lines: the flag starts unset and every fence line flips it.
\<close>

definition is_fence :: "string \<Rightarrow> bool" where
  "is_fence line = startswith (strip line) ''```''"

definition inside_before :: "string list \<Rightarrow> nat \<Rightarrow> bool" where
  "inside_before lines k = odd (length (filter is_fence (take k lines)))"

text \<open>The six dictionaries that the rules append, by the position \<open>i\<close> of the line.\<close>

abbreviation header_warning :: "int \<Rightarrow> issue" where
  "header_warning i \<equiv>
     \<lparr>issue_line = i + 1, issue_type = ''warning'',
      issue_message = ''Consider adding blank line after header at line '' @ str i\<rparr>"

abbreviation heading_error :: "int \<Rightarrow> int \<Rightarrow> issue" where
  "heading_error level i \<equiv>
     \<lparr>issue_line = i, issue_type = ''error'',
      issue_message =
        ''Invalid heading level '' @ str level @ '' at line '' @ str i @ '' (max is 6)''\<rparr>"

abbreviation link_error :: "int \<Rightarrow> string \<Rightarrow> issue" where
  "link_error i matched \<equiv>
     \<lparr>issue_line = i, issue_type = ''error'',
      issue_message = ''Empty link URL at line '' @ str i @ '': '' @ matched\<rparr>"

abbreviation image_warning :: "int \<Rightarrow> issue" where
  "image_warning i \<equiv>
     \<lparr>issue_line = i, issue_type = ''warning'',
      issue_message =
        ''Image without alt text at line '' @ str i @ '' (accessibility issue)''\<rparr>"

abbreviation table_warning :: "int \<Rightarrow> issue" where
  "table_warning i \<equiv>
     \<lparr>issue_line = i, issue_type = ''warning'',
      issue_message = ''Table row at line '' @ str i @ '' should start with |''\<rparr>"

abbreviation fence_warning :: "int \<Rightarrow> issue" where
  "fence_warning i \<equiv>
     \<lparr>issue_line = i + 1, issue_type = ''warning'',
      issue_message = ''Consider adding blank line after code block at line '' @ str i\<rparr>"

text \<open>The level that the heading rule computes for a line.\<close>

abbreviation heading_level :: "string \<Rightarrow> int" where
  "heading_level line \<equiv> int (length line) - int (length (lstrip line ''#''))"

text \<open>What each loop finds over all lines, in the order of the lines.\<close>

definition pass1_findings :: "string list \<Rightarrow> issue list" where
  "pass1_findings lines =
     concat (map (\<lambda>j. line_findings lines (int j + 1) (lines ! j)) [0..<length lines])"

definition pass2_findings :: "string list \<Rightarrow> issue list" where
  "pass2_findings lines =
     concat (map (\<lambda>j. fence_findings lines (int j + 1) (lines ! j) (inside_before lines j))
               [0..<length lines])"

text \<open>
  The line whose scan produced an issue: the two warnings about a missing blank line are
  reported at the line after the one that the loop was at.
\<close>

definition trigger_line :: "issue \<Rightarrow> int" where
  "trigger_line x =
     (if startswith (issue_message x) ''Consider adding blank line after ''
      then issue_line x - 1 else issue_line x)"

section \<open>Properties\<close>

subsection \<open>The loops in closed form\<close>

lemma getitem_nat:
  "0 \<le> i \<Longrightarrow> i < int (length xs) \<Longrightarrow> getitem xs i = Inr (xs ! nat i)"
  by (simp add: getitem_def)

lemma check_header_spacing_eq:
  assumes "1 \<le> i"
  shows "check_header_spacing lines i line issues = Inr (issues @ header_findings lines i line)"
  using assms by (simp add: check_header_spacing_def header_findings_def the_issues_def getitem_nat)

lemma check_heading_level_eq:
  "check_heading_level i line issues = issues @ heading_findings i line"
  by (simp add: check_heading_level_def heading_findings_def Let_def)

lemma check_links_eq:
  "check_links i ms issues =
     issues @ map (\<lambda>m. \<lparr>issue_line = i, issue_type = ''error'',
                          issue_message =
                            ''Empty link URL at line '' @ str i @ '': '' @ group0 m\<rparr>)
                (filter (\<lambda>m. strip (group2 m) = []) ms)"
  by (induction ms arbitrary: issues) (simp_all add: Let_def)

lemma check_images_eq:
  "check_images i ms issues =
     issues @ map (\<lambda>m. \<lparr>issue_line = i, issue_type = ''warning'',
                          issue_message =
                            ''Image without alt text at line '' @ str i
                              @ '' (accessibility issue)''\<rparr>)
                (filter (\<lambda>m. group1 m = [] \<or> strip (group1 m) = []) ms)"
  by (induction ms arbitrary: issues) (simp_all add: Let_def)

lemma check_links_app:
  "check_links i ms issues = issues @ check_links i ms []"
  by (simp add: check_links_eq)

lemma check_images_app:
  "check_images i ms issues = issues @ check_images i ms []"
  by (simp add: check_images_eq)

lemma check_table_row_eq:
  assumes "1 \<le> i" "i \<le> int (length lines)"
  shows "check_table_row lines i line issues = Inr (issues @ table_findings lines i line)"
  using assms by (simp add: check_table_row_def table_findings_def the_issues_def getitem_nat)

lemma lint_line_eq:
  assumes "1 \<le> i" "i \<le> int (length lines)"
  shows "lint_line lines i line issues = Inr (issues @ line_findings lines i line)"
proof -
  have "check_images i (finditer_img line)
          (check_links i (finditer_link line) (check_heading_level i line (issues @ header_findings lines i line)))
        = issues @ header_findings lines i line @ heading_findings i line @ link_findings i line
       @ image_findings i line"
    by (subst check_images_app, subst check_links_app, subst check_heading_level_eq)
       (simp add: link_findings_def image_findings_def)
  then show ?thesis
    using assms
    by (simp add: lint_line_def check_header_spacing_eq check_table_row_eq line_findings_def)
qed

lemma lint_loop1_snoc:
  "lint_loop1 lines i (xs @ [x]) issues =
     (case lint_loop1 lines i xs issues of
        Inl e \<Rightarrow> Inl e
      | Inr issues' \<Rightarrow> lint_line lines (i + int (length xs)) x issues')"
  by (induction xs arbitrary: i issues) (auto split: sum.splits simp: algebra_simps)

lemma lint_loop2_snoc:
  "lint_loop2 lines i (xs @ [x]) st =
     (case lint_loop2 lines i xs st of
        Inl e \<Rightarrow> Inl e
      | Inr st' \<Rightarrow> check_code_fence lines (i + int (length xs)) x st')"
  by (induction xs arbitrary: i st) (auto split: sum.splits simp: algebra_simps)

lemma lint_loop1_take:
  "k \<le> length lines \<Longrightarrow>
   lint_loop1 lines 1 (take k lines) issues =
     Inr (issues @ concat (map (\<lambda>j. line_findings lines (int j + 1) (lines ! j)) [0..<k]))"
proof (induction k)
  case 0
  show ?case by simp
next
  case (Suc k)
  then have k: "k < length lines" by simp
  have "lint_loop1 lines 1 (take (Suc k) lines) issues =
        lint_loop1 lines 1 (take k lines @ [lines ! k]) issues"
    by (simp add: take_Suc_conv_app_nth k)
  also have "\<dots> = Inr (issues @ concat (map (\<lambda>j. line_findings lines (int j + 1) (lines ! j)) [0..<Suc k]))"
    using Suc k by (simp add: lint_loop1_snoc lint_line_eq algebra_simps)
  finally show ?case .
qed

lemma check_code_fence_eq:
  assumes "1 \<le> i"
  shows "check_code_fence lines i line (b, issues) =
     Inr (if is_fence line then \<not> b else b, issues @ fence_findings lines i line b)"
  using assms
  by (simp add: check_code_fence_def fence_findings_def is_fence_def getitem_nat Let_def)

lemma lint_loop2_take:
  "k \<le> length lines \<Longrightarrow>
   lint_loop2 lines 1 (take k lines) (False, issues) =
     Inr (inside_before lines k,
          issues @ concat (map (\<lambda>j. fence_findings lines (int j + 1) (lines ! j) (inside_before lines j)) [0..<k]))"
proof (induction k)
  case 0
  show ?case by (simp add: inside_before_def)
next
  case (Suc k)
  then have k: "k < length lines" by simp
  have ib: "inside_before lines (Suc k) = (if is_fence (lines ! k) then \<not> inside_before lines k else inside_before lines k)"
    by (simp add: inside_before_def take_Suc_conv_app_nth k)
  have "lint_loop2 lines 1 (take (Suc k) lines) (False, issues) =
        lint_loop2 lines 1 (take k lines @ [lines ! k]) (False, issues)"
    by (simp add: take_Suc_conv_app_nth k)
  also have "\<dots> = Inr (inside_before lines (Suc k),
          issues @ concat (map (\<lambda>j. fence_findings lines (int j + 1) (lines ! j) (inside_before lines j)) [0..<Suc k]))"
    using Suc k by (simp add: lint_loop2_snoc check_code_fence_eq ib algebra_simps)
  finally show ?case .
qed

lemma strip_Nil [simp]: "strip [] = []"
  by (simp add: strip_def)

lemma strip_nonempty: "strip s \<noteq> [] \<Longrightarrow> s \<noteq> []"
  by auto

lemma header_findings_eq:
  assumes "1 \<le> i"
  shows "header_findings lines i line =
     (if i < int (length lines) \<and> startswith line ''#'' \<and> strip (lines ! nat i) \<noteq> []
          \<and> \<not> startswith (lines ! nat i) ''#''
      then [header_warning i] else [])"
  using assms
  by (auto simp: header_findings_def check_header_spacing_def the_issues_def getitem_nat)

lemma heading_findings_eq:
  "heading_findings i line =
     (if startswith line ''#'' \<and> i > 3 \<and> heading_level line > 6
      then [heading_error (heading_level line) i] else [])"
  by (simp add: heading_findings_def check_heading_level_def Let_def)

lemma link_findings_eq:
  "link_findings i line =
     map (\<lambda>m. link_error i (group0 m))
       (filter (\<lambda>m. strip (group2 m) = []) (finditer_link line))"
  by (simp add: link_findings_def check_links_eq)

lemma image_findings_eq:
  "image_findings i line =
     map (\<lambda>m. image_warning i)
       (filter (\<lambda>m. group1 m = [] \<or> strip (group1 m) = []) (finditer_img line))"
  by (simp add: image_findings_def check_images_eq)

lemma table_findings_eq:
  assumes "1 \<le> i" "i \<le> int (length lines)"
  shows "table_findings lines i line =
     (if CHR ''|'' \<in> set line \<and> \<not> startswith (strip line) ''|'' \<and> i > 1
          \<and> CHR ''|'' \<in> set (lines ! nat (i - 2))
      then [table_warning i] else [])"
  using assms
  by (auto simp: table_findings_def check_table_row_def the_issues_def getitem_nat)

lemma fence_findings_eq:
  assumes "1 \<le> i"
  shows "fence_findings lines i line b =
     (if is_fence line \<and> b \<and> i < int (length lines) \<and> strip (lines ! nat i) \<noteq> []
      then [fence_warning i] else [])"
  using assms
  by (auto simp: fence_findings_def check_code_fence_def is_fence_def getitem_nat Let_def)

lemma line_findings_cases:
  assumes "x \<in> set (line_findings lines i line)" "1 \<le> i" "i \<le> int (length lines)"
  shows "(x = header_warning i \<and> i < int (length lines))
       \<or> (x = heading_error (heading_level line) i \<and> 3 < i)
       \<or> (\<exists>g. x = link_error i g)
       \<or> x = image_warning i
       \<or> x = table_warning i"
proof -
  from assms(1) consider
      "x \<in> set (header_findings lines i line)"
    | "x \<in> set (heading_findings i line)"
    | "x \<in> set (link_findings i line)"
    | "x \<in> set (image_findings i line)"
    | "x \<in> set (table_findings lines i line)"
    unfolding line_findings_def by auto
  then show ?thesis
  proof cases
    case 1
    then have "x = header_warning i \<and> i < int (length lines)"
      by (simp add: header_findings_eq assms(2) split: if_splits)
    then show ?thesis by blast
  next
    case 2
    then have "x = heading_error (heading_level line) i \<and> 3 < i"
      by (simp add: heading_findings_eq split: if_splits)
    then show ?thesis by blast
  next
    case 3
    then have "x \<in> (\<lambda>m. link_error i (group0 m))
                   ` set (filter (\<lambda>m. strip (group2 m) = []) (finditer_link line))"
      unfolding link_findings_eq by (simp only: set_map)
    then have "\<exists>g. x = link_error i g"
      by blast
    then show ?thesis by blast
  next
    case 4
    then have "x \<in> (\<lambda>m. image_warning i)
                   ` set (filter (\<lambda>m. group1 m = [] \<or> strip (group1 m) = [])
                            (finditer_img line))"
      unfolding image_findings_eq by (simp only: set_map)
    then have "x = image_warning i"
      by blast
    then show ?thesis by blast
  next
    case 5
    then have "x = table_warning i"
      by (simp add: table_findings_eq assms(2,3) split: if_splits)
    then show ?thesis by blast
  qed
qed

lemma fence_findings_cases:
  assumes "x \<in> set (fence_findings lines i line b)" "1 \<le> i"
  shows "x = fence_warning i \<and> i < int (length lines)"
  using assms by (simp add: fence_findings_eq split: if_splits)

lemma split_nonempty: "split s sep \<noteq> []"
  by (induction s) (auto split: list.splits)

lemma lint_loop1_eq:
  "lint_loop1 lines 1 lines issues = Inr (issues @ pass1_findings lines)"
  using lint_loop1_take [of "length lines" lines issues] by (simp add: pass1_findings_def)

lemma lint_loop2_eq:
  "lint_loop2 lines 1 lines (False, issues) =
     Inr (inside_before lines (length lines), issues @ pass2_findings lines)"
  using lint_loop2_take [of "length lines" lines issues] by (simp add: pass2_findings_def)

lemma lint_eq:
  "lint text = Inr (pass1_findings (split text NL) @ pass2_findings (split text NL))"
  by (simp add: lint_def Let_def lint_loop1_eq lint_loop2_eq)

lemma in_pass1_findings:
  "x \<in> set (pass1_findings lines) \<longleftrightarrow>
     (\<exists>j < length lines. x \<in> set (line_findings lines (int j + 1) (lines ! j)))"
  by (auto simp: pass1_findings_def)

lemma in_pass2_findings:
  "x \<in> set (pass2_findings lines) \<longleftrightarrow>
     (\<exists>j < length lines.
        x \<in> set (fence_findings lines (int j + 1) (lines ! j) (inside_before lines j)))"
  by (auto simp: pass2_findings_def)

lemma str_nat_nonempty: "str_nat n \<noteq> []"
  by (subst str_nat.simps) simp

lemma digit_inj:
  assumes "m < 10" "n < 10" "''0123456789'' ! m = ''0123456789'' ! n"
  shows "m = n"
proof -
  have d: "distinct ''0123456789''" by simp
  have "length ''0123456789'' = 10" by simp
  with assms d show ?thesis
    by (metis nth_eq_iff_index_eq)
qed

lemma str_nat_inj: "str_nat m = str_nat n \<Longrightarrow> m = n"
proof (induction m arbitrary: n rule: str_nat.induct)
  case (1 m)
  show ?case
  proof (cases "m < 10")
    case m: True
    show ?thesis
    proof (cases "n < 10")
      case True
      with m "1.prems" have "''0123456789'' ! m = ''0123456789'' ! n"
        by (simp add: str_nat.simps [of m] str_nat.simps [of n])
      with m True show ?thesis by (rule digit_inj)
    next
      case False
      with m "1.prems" str_nat_nonempty [of "n div 10"] show ?thesis
        by (simp add: str_nat.simps [of m] str_nat.simps [of n])
    qed
  next
    case m: False
    show ?thesis
    proof (cases "n < 10")
      case True
      with m "1.prems" str_nat_nonempty [of "m div 10"] show ?thesis
        by (simp add: str_nat.simps [of m] str_nat.simps [of n])
    next
      case False
      with m "1.prems" have e: "str_nat (m div 10) = str_nat (n div 10)"
        and d: "''0123456789'' ! (m mod 10) = ''0123456789'' ! (n mod 10)"
        by (simp_all add: str_nat.simps [of m] str_nat.simps [of n])
      from "1.IH" [OF m e] have "m div 10 = n div 10" .
      moreover have "m mod 10 = n mod 10"
        by (rule digit_inj [OF _ _ d]) simp_all
      ultimately show ?thesis
        by (metis div_mult_mod_eq)
    qed
  qed
qed

lemma str_inj: "0 \<le> i \<Longrightarrow> 0 \<le> j \<Longrightarrow> str i = str j \<Longrightarrow> i = j"
  by (auto simp: str_def dest: str_nat_inj)

subsection \<open>Which issues are in the report\<close>

lemma line_findings_reported:
  assumes "1 \<le> i" "i \<le> int (length (split text NL))"
    and "x \<in> set (line_findings (split text NL) i (split text NL ! nat (i - 1)))"
  shows "\<exists>issues. lint text = Inr issues \<and> x \<in> set issues"
proof -
  let ?j = "nat (i - 1)"
  from assms(1,2) have j: "?j < length (split text NL)" and i: "int ?j + 1 = i"
    by simp_all
  from assms(3) i j have "x \<in> set (pass1_findings (split text NL))"
    unfolding in_pass1_findings by auto
  then show ?thesis
    by (simp add: lint_eq)
qed

lemma fence_findings_reported:
  assumes "1 \<le> i" "i \<le> int (length (split text NL))"
    and "x \<in> set (fence_findings (split text NL) i (split text NL ! nat (i - 1))
                     (inside_before (split text NL) (nat (i - 1))))"
  shows "\<exists>issues. lint text = Inr issues \<and> x \<in> set issues"
proof -
  let ?j = "nat (i - 1)"
  from assms(1,2) have j: "?j < length (split text NL)" and i: "int ?j + 1 = i"
    by simp_all
  from assms(3) i j have "x \<in> set (pass2_findings (split text NL))"
    unfolding in_pass2_findings by auto
  then show ?thesis
    by (simp add: lint_eq)
qed

lemma header_warning_reported:
  assumes "1 \<le> i" "i < int (length (split text NL))"
    and "startswith (split text NL ! nat (i - 1)) ''#''"
    and "strip (split text NL ! nat i) \<noteq> []"
    and "\<not> startswith (split text NL ! nat i) ''#''"
  shows "\<exists>issues. lint text = Inr issues \<and> header_warning i \<in> set issues"
proof (rule line_findings_reported)
  show "1 \<le> i" "i \<le> int (length (split text NL))"
    using assms(1,2) by simp_all
  show "header_warning i \<in> set (line_findings (split text NL) i (split text NL ! nat (i - 1)))"
    using assms by (simp add: line_findings_def header_findings_eq)
qed

lemma heading_level_count:
  "heading_level line = int (length (takeWhile (\<lambda>c. c = CHR ''#'') line))"
proof -
  have "length (takeWhile (\<lambda>c. c = CHR ''#'') line) + length (dropWhile (\<lambda>c. c = CHR ''#'') line)
        = length line"
    by (metis length_append takeWhile_dropWhile_id)
  then show ?thesis
    by (simp add: lstrip_def)
qed

lemma heading_error_reported:
  assumes "3 < i" "i \<le> int (length (split text NL))"
    and "startswith (split text NL ! nat (i - 1)) ''#''"
    and "6 < heading_level (split text NL ! nat (i - 1))"
  shows "\<exists>issues. lint text = Inr issues
           \<and> heading_error (heading_level (split text NL ! nat (i - 1))) i \<in> set issues"
proof (rule line_findings_reported)
  show "1 \<le> i" "i \<le> int (length (split text NL))"
    using assms(1,2) by simp_all
  show "heading_error (heading_level (split text NL ! nat (i - 1))) i
          \<in> set (line_findings (split text NL) i (split text NL ! nat (i - 1)))"
    using assms by (simp add: line_findings_def heading_findings_eq)
qed

lemma issue_cases:
  assumes "lint text = Inr issues" "x \<in> set issues"
  obtains (first) i where "1 \<le> i" "i \<le> int (length (split text NL))"
      "x \<in> set (line_findings (split text NL) i (split text NL ! nat (i - 1)))"
    | (second) i where "1 \<le> i" "i \<le> int (length (split text NL))"
      "x \<in> set (fence_findings (split text NL) i (split text NL ! nat (i - 1))
                   (inside_before (split text NL) (nat (i - 1))))"
proof -
  from assms have "x \<in> set (pass1_findings (split text NL)) \<or> x \<in> set (pass2_findings (split text NL))"
    by (auto simp: lint_eq)
  then show thesis
  proof
    assume "x \<in> set (pass1_findings (split text NL))"
    then obtain j where "j < length (split text NL)"
      "x \<in> set (line_findings (split text NL) (int j + 1) (split text NL ! j))"
      unfolding in_pass1_findings by blast
    then show thesis
      using first [of "int j + 1"] by simp
  next
    assume "x \<in> set (pass2_findings (split text NL))"
    then obtain j where "j < length (split text NL)"
      "x \<in> set (fence_findings (split text NL) (int j + 1) (split text NL ! j)
                  (inside_before (split text NL) j))"
      unfolding in_pass2_findings by blast
    then show thesis
      using second [of "int j + 1"] by simp
  qed
qed

lemma no_heading_error_before_line_4:
  assumes "lint text = Inr issues" "x \<in> set issues" "issue_line x \<le> 3"
  shows "\<not> startswith (issue_message x) ''Invalid heading level''"
  using assms(1,2)
proof (cases rule: issue_cases)
  case (first i)
  from line_findings_cases [OF first(3,1,2)] assms(3) show ?thesis
    by (auto simp: startswith_def)
next
  case (second i)
  from fence_findings_cases [OF second(3,1)] show ?thesis
    by (auto simp: startswith_def)
qed

lemma fence_warning_reported:
  assumes "1 \<le> i" "i < int (length (split text NL))"
    and "is_fence (split text NL ! nat (i - 1))"
    and "inside_before (split text NL) (nat (i - 1))"
    and "strip (split text NL ! nat i) \<noteq> []"
  shows "\<exists>issues. lint text = Inr issues \<and> fence_warning i \<in> set issues"
proof (rule fence_findings_reported)
  show "1 \<le> i" "i \<le> int (length (split text NL))"
    using assms(1,2) by simp_all
  show "fence_warning i \<in> set (fence_findings (split text NL) i (split text NL ! nat (i - 1))
                                 (inside_before (split text NL) (nat (i - 1))))"
    using assms by (simp add: fence_findings_eq)
qed

lemma fence_message_needs_content:
  assumes "lint text = Inr issues" "x \<in> set issues" "1 \<le> i"
    and "issue_message x = ''Consider adding blank line after code block at line '' @ str i"
  shows "i < int (length (split text NL)) \<and> strip (split text NL ! nat i) \<noteq> []
         \<and> is_fence (split text NL ! nat (i - 1)) \<and> inside_before (split text NL) (nat (i - 1))
         \<and> x = fence_warning i"
  using assms(1,2)
proof (cases rule: issue_cases)
  case (first k)
  from line_findings_cases [OF first(3,1,2)] assms(4) show ?thesis
    by auto
next
  case (second k)
  from second(3,1) have x: "x = fence_warning k"
    and c: "is_fence (split text NL ! nat (k - 1))" "inside_before (split text NL) (nat (k - 1))"
        "k < int (length (split text NL))" "strip (split text NL ! nat k) \<noteq> []"
    by (simp_all add: fence_findings_eq split: if_splits)
  from x assms(4) have "str k = str i"
    by simp
  with second(1) assms(3) have "k = i"
    by (intro str_inj) simp_all
  with x c show ?thesis
    by simp
qed

lemma header_message_needs_content:
  assumes "lint text = Inr issues" "x \<in> set issues" "1 \<le> i"
    and "issue_message x = ''Consider adding blank line after header at line '' @ str i"
  shows "i < int (length (split text NL)) \<and> x = header_warning i"
  using assms(1,2)
proof (cases rule: issue_cases)
  case (first k)
  from line_findings_cases [OF first(3,1,2)] assms(4)
  have x: "x = header_warning k" and k: "k < int (length (split text NL))"
    by auto
  from x assms(4) have "str k = str i"
    by simp
  with first(1) assms(3) have "k = i"
    by (intro str_inj) simp_all
  with x k show ?thesis
    by simp
next
  case (second k)
  from fence_findings_cases [OF second(3,1)] assms(4) show ?thesis
    by auto
qed

lemma issue_line_bounds:
  assumes "lint text = Inr issues" "x \<in> set issues"
  shows "1 \<le> issue_line x \<and> issue_line x \<le> int (length (split text NL))"
  using assms(1,2)
proof (cases rule: issue_cases)
  case (first k)
  from line_findings_cases [OF first(3,1,2)] first(1,2) show ?thesis
    by auto
next
  case (second k)
  from fence_findings_cases [OF second(3,1)] second(1) show ?thesis
    by auto
qed

lemma lint_total: "\<exists>issues. lint text = Inr issues"
  by (simp add: lint_eq)

lemma set_status_store: "lint_issues (snd (set_status msg self)) = lint_issues self"
  by (simp add: set_status_def split: sum.splits)

lemma lint_markdown_store:
  assumes "lint text = Inr issues"
  shows "lint_issues (snd (lint_markdown editor_id text self))
         = (lint_issues self)(editor_id \<mapsto> issues)"
proof (cases "issues = []")
  case True
  with assms show ?thesis
    by (simp add: lint_markdown_def Let_def split: sum.splits)
next
  case False
  with assms show ?thesis
    by (simp add: lint_markdown_def Let_def set_status_store)
qed

lemma empty_link_url_reported:
  assumes "1 \<le> i" "i \<le> int (length (split text NL))"
    and "m \<in> set (finditer_link (split text NL ! nat (i - 1)))"
    and "strip (group2 m) = []"
  shows "\<exists>issues. lint text = Inr issues \<and> link_error i (group0 m) \<in> set issues"
proof (rule line_findings_reported)
  show "1 \<le> i" "i \<le> int (length (split text NL))"
    by fact+
  have "link_error i (group0 m) \<in> (\<lambda>m. link_error i (group0 m))
          ` set (filter (\<lambda>m. strip (group2 m) = []) (finditer_link (split text NL ! nat (i - 1))))"
    using assms(3,4) by (intro imageI) simp
  then have "link_error i (group0 m) \<in> set (link_findings i (split text NL ! nat (i - 1)))"
    unfolding link_findings_eq by (simp only: set_map)
  then show "link_error i (group0 m)
          \<in> set (line_findings (split text NL) i (split text NL ! nat (i - 1)))"
    by (simp add: line_findings_def)
qed

lemma sorted_same_key:
  "(\<And>x. x \<in> set xs \<Longrightarrow> key x = (c::int)) \<Longrightarrow> sorted (map key xs)"
  by (induction xs) auto

lemma concat_upt_keys:
  assumes "\<And>j x. j < n \<Longrightarrow> x \<in> set (f j) \<Longrightarrow> key x = int j + c"
  shows "sorted (map key (concat (map f [0..<n])))
         \<and> (\<forall>x \<in> set (concat (map f [0..<n])). key x < int n + c)"
  using assms
proof (induction n)
  case 0
  show ?case by simp
next
  case (Suc n)
  have "sorted (map key (concat (map f [0..<n])))
        \<and> (\<forall>x \<in> set (concat (map f [0..<n])). key x < int n + c)"
  proof (rule Suc.IH)
    fix j x
    assume "j < n" "x \<in> set (f j)"
    then show "key x = int j + c"
      using Suc.prems [of j x] by simp
  qed
  then have ih: "sorted (map key (concat (map f [0..<n])))"
    "\<And>x. x \<in> set (concat (map f [0..<n])) \<Longrightarrow> key x < int n + c"
    by blast+
  have new: "\<And>x. x \<in> set (f n) \<Longrightarrow> key x = int n + c"
    using Suc.prems [of n] by simp
  have s: "sorted (map key (f n))"
    by (rule sorted_same_key) (rule new)
  have "sorted (map key (concat (map f [0..<n]) @ f n))"
    unfolding map_append sorted_append
    using ih s new by (auto simp: less_imp_le)
  moreover have "\<forall>x \<in> set (concat (map f [0..<n]) @ f n). key x < int (Suc n) + c"
  proof
    fix x
    assume "x \<in> set (concat (map f [0..<n]) @ f n)"
    then have "x \<in> set (concat (map f [0..<n])) \<or> x \<in> set (f n)"
      by simp
    then show "key x < int (Suc n) + c"
    proof
      assume a: "x \<in> set (concat (map f [0..<n]))"
      from ih(2) [OF a] show ?thesis by simp
    next
      assume a: "x \<in> set (f n)"
      from new [OF a] show ?thesis by simp
    qed
  qed
  ultimately show ?case
    by simp
qed

lemma trigger_line_line_findings:
  assumes "x \<in> set (line_findings lines i line)" "1 \<le> i" "i \<le> int (length lines)"
  shows "trigger_line x = i"
  using line_findings_cases [OF assms]
  by (auto simp: trigger_line_def startswith_def)

lemma sorted_pass1:
  "sorted (map trigger_line (pass1_findings lines))"
  unfolding pass1_findings_def
proof (rule concat_upt_keys [where c = 1, THEN conjunct1])
  fix j x
  assume j: "j < length lines"
    and x: "x \<in> set (line_findings lines (int j + 1) (lines ! j))"
  show "trigger_line x = int j + 1"
    by (rule trigger_line_line_findings [OF x]) (use j in simp_all)
qed

lemma sorted_pass2:
  "sorted (map issue_line (pass2_findings lines))"
  unfolding pass2_findings_def
proof (rule concat_upt_keys [where c = 2, THEN conjunct1])
  fix j x
  assume "j < length lines"
    "x \<in> set (fence_findings lines (int j + 1) (lines ! j) (inside_before lines j))"
  then show "issue_line x = int j + 2"
    using fence_findings_cases [of x lines "int j + 1" "lines ! j" "inside_before lines j"]
    by simp
qed

section \<open>The claims\<close>

subsection \<open>Empty link targets\<close>

text \<open>
  C1. The link rule reports every match whose URL is empty after trimming (lemma
  \<open>empty_link_url_reported\<close>), but the pattern asks for at least one character between
  the parentheses, so a link with nothing there is no match at all: the line
  \<^verbatim>\<open>[broken]()\<close> has no link match and its report is empty, where the message
  "Empty link URL" of the rule is meant for it. Only a URL of whitespace is reported, as
  for \<^verbatim>\<open>[broken]( )\<close>.
\<close>

theorem empty_link_url_not_matched:
  "finditer_link ''[broken]()'' = []
   \<and> lint ''[broken]()'' = Inr []
   \<and> lint ''[broken]( )'' = Inr [link_error 1 ''[broken]( )'']"
  by code_simp

subsection \<open>The order of the report\<close>

text \<open>
  C2, as amended. The report is what the first loop finds followed by what the second
  loop finds, and the second loop finds the same from the empty list. The first segment
  is, line after line, what the five rules find at that line in the order header
  spacing, heading level, links, images, table row. It is sorted by the line that the
  loop was at when it found the issue, and the second segment is sorted by line number.
\<close>

theorem report_is_two_passes:
  "\<exists>seg15 seg6 b.
     lint_loop1 (split text NL) 1 (split text NL) [] = Inr seg15
     \<and> lint_loop2 (split text NL) 1 (split text NL) (False, []) = Inr (b, seg6)
     \<and> lint text = Inr (seg15 @ seg6)
     \<and> seg15 =
         concat (map (\<lambda>j. header_findings (split text NL) (int j + 1) (split text NL ! j)
                          @ heading_findings (int j + 1) (split text NL ! j)
                          @ link_findings (int j + 1) (split text NL ! j)
                          @ image_findings (int j + 1) (split text NL ! j)
                          @ table_findings (split text NL) (int j + 1) (split text NL ! j))
                   [0..<length (split text NL)])
     \<and> sorted (map trigger_line seg15)
     \<and> sorted (map issue_line seg6)"
proof (intro exI conjI)
  show "lint_loop1 (split text NL) 1 (split text NL) [] = Inr (pass1_findings (split text NL))"
    by (simp add: lint_loop1_eq)
  show "lint_loop2 (split text NL) 1 (split text NL) (False, [])
        = Inr (inside_before (split text NL) (length (split text NL)),
               pass2_findings (split text NL))"
    by (simp add: lint_loop2_eq)
  show "lint text = Inr (pass1_findings (split text NL) @ pass2_findings (split text NL))"
    by (rule lint_eq)
  show "pass1_findings (split text NL) =
         concat (map (\<lambda>j. header_findings (split text NL) (int j + 1) (split text NL ! j)
                          @ heading_findings (int j + 1) (split text NL ! j)
                          @ link_findings (int j + 1) (split text NL ! j)
                          @ image_findings (int j + 1) (split text NL ! j)
                          @ table_findings (split text NL) (int j + 1) (split text NL ! j))
                   [0..<length (split text NL)])"
    by (simp only: pass1_findings_def line_findings_def)
  show "sorted (map trigger_line (pass1_findings (split text NL)))"
    by (rule sorted_pass1)
  show "sorted (map issue_line (pass2_findings (split text NL)))"
    by (rule sorted_pass2)
qed

text \<open>
  C2 as stated asks for the first segment to be sorted by line number. The header-spacing
  warning is filed under the line after the header, and the rules that follow it in the
  loop body file under the header's own line: a heading of depth seven at line 4 with
  content at line 5 gives a warning at line 5 followed by an error at line 4.
\<close>

theorem first_pass_not_sorted_by_line:
  "lint_loop1 (split ([NL, NL, NL] @ ''####### Deep'' @ [NL] @ ''text'') NL) 1
      (split ([NL, NL, NL] @ ''####### Deep'' @ [NL] @ ''text'') NL) []
     = Inr [header_warning 4, heading_error 7 4]
   \<and> lint ([NL, NL, NL] @ ''####### Deep'' @ [NL] @ ''text'')
     = Inr [header_warning 4, heading_error 7 4]
   \<and> \<not> sorted (map issue_line [header_warning 4, heading_error 7 4])"
  by code_simp

subsection \<open>Headers followed by content\<close>

text \<open>
  C3. If the line at position \<open>i\<close> starts with a hash and is not the last line, and the
  next line is not blank and does not start with a hash, the report has the warning at
  line \<open>i + 1\<close> that names line \<open>i\<close>. The text \<^verbatim>\<open># Title\<close>, \<^verbatim>\<open>Some text\<close> has exactly
  this one issue, at line 2 and naming line 1, and with a blank line between the two the
  report is empty.
\<close>

theorem header_followed_by_content:
  "(\<forall>text i.
      1 \<le> i \<and> i < int (length (split text NL))
        \<and> startswith (split text NL ! nat (i - 1)) ''#''
        \<and> strip (split text NL ! nat i) \<noteq> []
        \<and> \<not> startswith (split text NL ! nat i) ''#''
      \<longrightarrow> (\<exists>issues. lint text = Inr issues \<and> header_warning i \<in> set issues))
   \<and> lint (''# Title'' @ [NL] @ ''Some text'') = Inr [header_warning 1]
   \<and> lint (''# Title'' @ [NL, NL] @ ''Some text'') = Inr []"
proof (intro conjI allI impI)
  fix t i
  assume "1 \<le> i \<and> i < int (length (split t NL))
        \<and> startswith (split t NL ! nat (i - 1)) ''#''
        \<and> strip (split t NL ! nat i) \<noteq> []
        \<and> \<not> startswith (split t NL ! nat i) ''#''"
  then show "\<exists>issues. lint t = Inr issues \<and> header_warning i \<in> set issues"
    by (intro header_warning_reported) simp_all
next
  show "lint (''# Title'' @ [NL] @ ''Some text'') = Inr [header_warning 1]"
    by code_simp
next
  show "lint (''# Title'' @ [NL, NL] @ ''Some text'') = Inr []"
    by code_simp
qed

theorem header_followed_by_content_witness:
  "((1::int) \<le> 1 \<and> 1 < int (length (split (''# Title'' @ [NL] @ ''Some text'') NL))
      \<and> startswith (split (''# Title'' @ [NL] @ ''Some text'') NL ! nat (1 - 1)) ''#''
      \<and> strip (split (''# Title'' @ [NL] @ ''Some text'') NL ! nat 1) \<noteq> []
      \<and> \<not> startswith (split (''# Title'' @ [NL] @ ''Some text'') NL ! nat 1) ''#'')
   \<and> (\<exists>issues. lint (''# Title'' @ [NL] @ ''Some text'') = Inr issues
         \<and> header_warning 1 \<in> set issues)"
proof -
  have h: "(1::int) \<le> 1 \<and> 1 < int (length (split (''# Title'' @ [NL] @ ''Some text'') NL))
      \<and> startswith (split (''# Title'' @ [NL] @ ''Some text'') NL ! nat (1 - 1)) ''#''
      \<and> strip (split (''# Title'' @ [NL] @ ''Some text'') NL ! nat 1) \<noteq> []
      \<and> \<not> startswith (split (''# Title'' @ [NL] @ ''Some text'') NL ! nat 1) ''#''"
    by code_simp
  from header_followed_by_content [THEN conjunct1, rule_format, OF h] h
  show ?thesis
    by (rule conjI [rotated])
qed

subsection \<open>Heading depth\<close>

text \<open>
  C4. If the line at a position \<open>i\<close> above 3 starts with a hash and the number of its
  leading hashes is above 6, the report has the error at line \<open>i\<close> with that number as
  the level. No issue at one of the lines 1 to 3 is an invalid-heading error, whatever
  the depth. Four empty lines followed by \<^verbatim>\<open>#######  Too deep\<close> give exactly one
  issue, the error with level 7 at line 5.
\<close>

theorem invalid_heading_depth:
  "(\<forall>text i.
      3 < i \<and> i \<le> int (length (split text NL))
        \<and> startswith (split text NL ! nat (i - 1)) ''#''
        \<and> 6 < int (length (takeWhile (\<lambda>c. c = CHR ''#'') (split text NL ! nat (i - 1))))
      \<longrightarrow> (\<exists>issues. lint text = Inr issues
             \<and> heading_error
                  (int (length (takeWhile (\<lambda>c. c = CHR ''#'') (split text NL ! nat (i - 1))))) i
                 \<in> set issues))
   \<and> (\<forall>text issues x.
        lint text = Inr issues \<and> x \<in> set issues \<and> issue_line x \<le> 3
        \<longrightarrow> \<not> startswith (issue_message x) ''Invalid heading level'')
   \<and> lint ([NL, NL, NL, NL] @ ''#######  Too deep'') = Inr [heading_error 7 5]"
proof (intro conjI allI impI)
  fix t i
  assume a: "3 < i \<and> i \<le> int (length (split t NL))
        \<and> startswith (split t NL ! nat (i - 1)) ''#''
        \<and> 6 < int (length (takeWhile (\<lambda>c. c = CHR ''#'') (split t NL ! nat (i - 1))))"
  have "\<exists>issues. lint t = Inr issues
          \<and> heading_error (heading_level (split t NL ! nat (i - 1))) i \<in> set issues"
    by (rule heading_error_reported) (use a in \<open>simp_all only: heading_level_count\<close>)
  then show "\<exists>issues. lint t = Inr issues
             \<and> heading_error
                  (int (length (takeWhile (\<lambda>c. c = CHR ''#'') (split t NL ! nat (i - 1))))) i
                 \<in> set issues"
    by (simp only: heading_level_count)
next
  fix t issues x
  assume "lint t = Inr issues \<and> x \<in> set issues \<and> issue_line x \<le> 3"
  then show "\<not> startswith (issue_message x) ''Invalid heading level''"
    using no_heading_error_before_line_4 [of t issues x] by blast
next
  show "lint ([NL, NL, NL, NL] @ ''#######  Too deep'') = Inr [heading_error 7 5]"
    by code_simp
qed

theorem invalid_heading_depth_witness:
  "((3::int) < 5 \<and> 5 \<le> int (length (split ([NL, NL, NL, NL] @ ''#######  Too deep'') NL))
      \<and> startswith (split ([NL, NL, NL, NL] @ ''#######  Too deep'') NL ! nat (5 - 1)) ''#''
      \<and> 6 < int (length (takeWhile (\<lambda>c. c = CHR ''#'')
                 (split ([NL, NL, NL, NL] @ ''#######  Too deep'') NL ! nat (5 - 1)))))
   \<and> (\<exists>issues. lint ([NL, NL, NL, NL] @ ''#######  Too deep'') = Inr issues
         \<and> heading_error
              (int (length (takeWhile (\<lambda>c. c = CHR ''#'')
                 (split ([NL, NL, NL, NL] @ ''#######  Too deep'') NL ! nat (5 - 1))))) 5
             \<in> set issues)
   \<and> (lint (''#######'' @ [NL] @ ''text'') = Inr [header_warning 1]
      \<and> header_warning 1 \<in> set [header_warning 1]
      \<and> issue_line (header_warning 1) \<le> 3)
   \<and> \<not> startswith (issue_message (header_warning 1)) ''Invalid heading level''"
proof -
  have h1: "(3::int) < 5 \<and> 5 \<le> int (length (split ([NL, NL, NL, NL] @ ''#######  Too deep'') NL))
      \<and> startswith (split ([NL, NL, NL, NL] @ ''#######  Too deep'') NL ! nat (5 - 1)) ''#''
      \<and> 6 < int (length (takeWhile (\<lambda>c. c = CHR ''#'')
                 (split ([NL, NL, NL, NL] @ ''#######  Too deep'') NL ! nat (5 - 1))))"
    by code_simp
  have h2: "lint (''#######'' @ [NL] @ ''text'') = Inr [header_warning 1]
      \<and> header_warning 1 \<in> set [header_warning 1]
      \<and> issue_line (header_warning 1) \<le> 3"
    by code_simp
  note c1 = invalid_heading_depth [THEN conjunct1, rule_format, OF h1]
  note c2 = invalid_heading_depth [THEN conjunct2, THEN conjunct1, rule_format, OF h2]
  show ?thesis
    by (rule conjI [OF h1 conjI [OF c1 conjI [OF h2 c2]]])
qed

subsection \<open>Code blocks followed by content\<close>

text \<open>
  C5. The flag before a line is set when an odd number of fence lines precede it. If the
  line at position \<open>i\<close> is a fence line reached with the flag set, and it is not the last
  line, then a next line that is not blank puts the warning at line \<open>i + 1\<close> that names
  line \<open>i\<close> into the report, and with a blank next line no issue of the report has the
  message that names line \<open>i\<close>. The text \<^verbatim>\<open>```\<close>, \<^verbatim>\<open>code\<close>, \<^verbatim>\<open>```\<close>, \<^verbatim>\<open>more text\<close> has
  exactly one issue, the warning at line 4 that names line 3.
\<close>

theorem code_block_followed_by_content:
  "(\<forall>text i.
      1 \<le> i \<and> i < int (length (split text NL))
        \<and> is_fence (split text NL ! nat (i - 1))
        \<and> inside_before (split text NL) (nat (i - 1))
        \<and> strip (split text NL ! nat i) \<noteq> []
      \<longrightarrow> (\<exists>issues. lint text = Inr issues \<and> fence_warning i \<in> set issues))
   \<and> (\<forall>text i issues x.
        1 \<le> i \<and> i < int (length (split text NL))
          \<and> is_fence (split text NL ! nat (i - 1))
          \<and> inside_before (split text NL) (nat (i - 1))
          \<and> strip (split text NL ! nat i) = []
          \<and> lint text = Inr issues \<and> x \<in> set issues
        \<longrightarrow> issue_message x
              \<noteq> ''Consider adding blank line after code block at line '' @ str i)
   \<and> lint (''```'' @ [NL] @ ''code'' @ [NL] @ ''```'' @ [NL] @ ''more text'')
       = Inr [fence_warning 3]"
proof (intro conjI allI impI)
  fix t i
  assume "1 \<le> i \<and> i < int (length (split t NL))
        \<and> is_fence (split t NL ! nat (i - 1))
        \<and> inside_before (split t NL) (nat (i - 1))
        \<and> strip (split t NL ! nat i) \<noteq> []"
  then show "\<exists>issues. lint t = Inr issues \<and> fence_warning i \<in> set issues"
    by (intro fence_warning_reported) simp_all
next
  fix t i issues x
  assume a: "1 \<le> i \<and> i < int (length (split t NL))
          \<and> is_fence (split t NL ! nat (i - 1))
          \<and> inside_before (split t NL) (nat (i - 1))
          \<and> strip (split t NL ! nat i) = []
          \<and> lint t = Inr issues \<and> x \<in> set issues"
  show "issue_message x \<noteq> ''Consider adding blank line after code block at line '' @ str i"
  proof
    assume "issue_message x = ''Consider adding blank line after code block at line '' @ str i"
    with a have "strip (split t NL ! nat i) \<noteq> []"
      using fence_message_needs_content [of t issues x i] by blast
    with a show False
      by blast
  qed
next
  show "lint (''```'' @ [NL] @ ''code'' @ [NL] @ ''```'' @ [NL] @ ''more text'')
       = Inr [fence_warning 3]"
    by code_simp
qed

theorem code_block_followed_by_content_witness:
  "((1::int) \<le> 3
      \<and> 3 < int (length (split (''```'' @ [NL] @ ''code'' @ [NL] @ ''```'' @ [NL] @ ''more text'') NL))
      \<and> is_fence (split (''```'' @ [NL] @ ''code'' @ [NL] @ ''```'' @ [NL] @ ''more text'') NL
                    ! nat (3 - 1))
      \<and> inside_before (split (''```'' @ [NL] @ ''code'' @ [NL] @ ''```'' @ [NL] @ ''more text'') NL)
           (nat (3 - 1))
      \<and> strip (split (''```'' @ [NL] @ ''code'' @ [NL] @ ''```'' @ [NL] @ ''more text'') NL ! nat 3)
          \<noteq> [])
   \<and> (\<exists>issues. lint (''```'' @ [NL] @ ''code'' @ [NL] @ ''```'' @ [NL] @ ''more text'') = Inr issues
         \<and> fence_warning 3 \<in> set issues)
   \<and> ((1::int) \<le> 2
      \<and> 2 < int (length (split (''```'' @ [NL] @ ''```'' @ [NL] @ '' '' @ [NL] @ ''# b'' @ [NL] @ ''c'') NL))
      \<and> is_fence (split (''```'' @ [NL] @ ''```'' @ [NL] @ '' '' @ [NL] @ ''# b'' @ [NL] @ ''c'') NL
                    ! nat (2 - 1))
      \<and> inside_before (split (''```'' @ [NL] @ ''```'' @ [NL] @ '' '' @ [NL] @ ''# b'' @ [NL] @ ''c'') NL)
           (nat (2 - 1))
      \<and> strip (split (''```'' @ [NL] @ ''```'' @ [NL] @ '' '' @ [NL] @ ''# b'' @ [NL] @ ''c'') NL ! nat 2)
          = []
      \<and> lint (''```'' @ [NL] @ ''```'' @ [NL] @ '' '' @ [NL] @ ''# b'' @ [NL] @ ''c'')
          = Inr [header_warning 4]
      \<and> header_warning 4 \<in> set [header_warning 4])
   \<and> issue_message (header_warning 4)
       \<noteq> ''Consider adding blank line after code block at line '' @ str 2"
proof -
  have h1: "(1::int) \<le> 3
      \<and> 3 < int (length (split (''```'' @ [NL] @ ''code'' @ [NL] @ ''```'' @ [NL] @ ''more text'') NL))
      \<and> is_fence (split (''```'' @ [NL] @ ''code'' @ [NL] @ ''```'' @ [NL] @ ''more text'') NL
                    ! nat (3 - 1))
      \<and> inside_before (split (''```'' @ [NL] @ ''code'' @ [NL] @ ''```'' @ [NL] @ ''more text'') NL)
           (nat (3 - 1))
      \<and> strip (split (''```'' @ [NL] @ ''code'' @ [NL] @ ''```'' @ [NL] @ ''more text'') NL ! nat 3)
          \<noteq> []"
    by code_simp
  have h2: "(1::int) \<le> 2
      \<and> 2 < int (length (split (''```'' @ [NL] @ ''```'' @ [NL] @ '' '' @ [NL] @ ''# b'' @ [NL] @ ''c'') NL))
      \<and> is_fence (split (''```'' @ [NL] @ ''```'' @ [NL] @ '' '' @ [NL] @ ''# b'' @ [NL] @ ''c'') NL
                    ! nat (2 - 1))
      \<and> inside_before (split (''```'' @ [NL] @ ''```'' @ [NL] @ '' '' @ [NL] @ ''# b'' @ [NL] @ ''c'') NL)
           (nat (2 - 1))
      \<and> strip (split (''```'' @ [NL] @ ''```'' @ [NL] @ '' '' @ [NL] @ ''# b'' @ [NL] @ ''c'') NL ! nat 2)
          = []
      \<and> lint (''```'' @ [NL] @ ''```'' @ [NL] @ '' '' @ [NL] @ ''# b'' @ [NL] @ ''c'')
          = Inr [header_warning 4]
      \<and> header_warning 4 \<in> set [header_warning 4]"
    by code_simp
  note c1 = code_block_followed_by_content [THEN conjunct1, rule_format, OF h1]
  note c2 = code_block_followed_by_content [THEN conjunct2, THEN conjunct1, rule_format, OF h2]
  show ?thesis
    by (rule conjI [OF h1 conjI [OF c1 conjI [OF h2 c2]]])
qed

subsection \<open>No failure\<close>

text \<open>
  C6. For every text the linter returns a list of issues and never an exception; every
  function of the embedding is total. The empty text, a text with a fence that is never
  closed and a line with an unclosed link have empty reports.
\<close>

theorem lint_never_raises:
  "(\<exists>issues. lint text = Inr issues)
   \<and> lint [] = Inr []
   \<and> lint (''```'' @ [NL] @ ''code'') = Inr []
   \<and> lint ''[a](b'' = Inr []"
proof (intro conjI)
  show "\<exists>issues. lint text = Inr issues"
    by (rule lint_total)
  show "lint [] = Inr []"
    by code_simp
  show "lint (''```'' @ [NL] @ ''code'') = Inr []"
    by code_simp
  show "lint ''[a](b'' = Inr []"
    by code_simp
qed

subsection \<open>Determinism\<close>

text \<open>
  C7. The report depends on the text alone. From any two application states and under
  any two editor ids, the method leaves the same report for the same text in the store,
  the one that the linter computes for the text; so does a second run on the state that
  a first run has left. This holds whether or not a call to the toolkit raises after the
  store.
\<close>

theorem lint_deterministic:
  "\<exists>report.
     lint text = Inr report
     \<and> lint_issues (snd (lint_markdown d1 text s1)) d1 = Some report
     \<and> lint_issues (snd (lint_markdown d2 text s2)) d2 = Some report
     \<and> lint_issues (snd (lint_markdown d1 text (snd (lint_markdown d1 text s1)))) d1
         = Some report"
proof -
  obtain report where r: "lint text = Inr report"
    using lint_total by blast
  show ?thesis
  proof (rule exI)
    show "lint text = Inr report
     \<and> lint_issues (snd (lint_markdown d1 text s1)) d1 = Some report
     \<and> lint_issues (snd (lint_markdown d2 text s2)) d2 = Some report
     \<and> lint_issues (snd (lint_markdown d1 text (snd (lint_markdown d1 text s1)))) d1
         = Some report"
      by (simp add: r lint_markdown_store [OF r])
  qed
qed

subsection \<open>Line numbers\<close>

text \<open>
  C8. With \<open>n\<close> the number of lines of the text, every issue of the report has a line
  number from 1 to \<open>n + 1\<close>. No issue has the line number \<open>n + 1\<close>, and none has the
  message of the header-spacing or of the code-block warning that names line \<open>n\<close>: a
  trigger on the last line gives no warning.
\<close>

theorem issue_lines_in_range:
  "\<exists>issues.
     lint text = Inr issues
     \<and> (\<forall>x \<in> set issues.
          1 \<le> issue_line x \<and> issue_line x \<le> int (length (split text NL)) + 1)
     \<and> (\<forall>x \<in> set issues.
          issue_line x \<noteq> int (length (split text NL)) + 1
          \<and> issue_message x
              \<noteq> ''Consider adding blank line after header at line ''
                  @ str (int (length (split text NL)))
          \<and> issue_message x
              \<noteq> ''Consider adding blank line after code block at line ''
                  @ str (int (length (split text NL))))"
proof -
  obtain issues where l: "lint text = Inr issues"
    using lint_total by blast
  have n: "1 \<le> int (length (split text NL))"
    using split_nonempty [of "text" NL] by (cases "split text NL") simp_all
  have b: "1 \<le> issue_line x \<and> issue_line x \<le> int (length (split text NL))"
    if "x \<in> set issues" for x
    using issue_line_bounds [OF l that] .
  have h: "issue_message x \<noteq> ''Consider adding blank line after header at line ''
                  @ str (int (length (split text NL)))" if "x \<in> set issues" for x
  proof
    assume "issue_message x = ''Consider adding blank line after header at line ''
                  @ str (int (length (split text NL)))"
    from header_message_needs_content [OF l that n this] show False
      by simp
  qed
  have f: "issue_message x \<noteq> ''Consider adding blank line after code block at line ''
                  @ str (int (length (split text NL)))" if "x \<in> set issues" for x
  proof
    assume "issue_message x = ''Consider adding blank line after code block at line ''
                  @ str (int (length (split text NL)))"
    from fence_message_needs_content [OF l that n this] show False
      by simp
  qed
  have r: "\<forall>x \<in> set issues.
          1 \<le> issue_line x \<and> issue_line x \<le> int (length (split text NL)) + 1"
  proof
    fix x
    assume "x \<in> set issues"
    from b [OF this]
    show "1 \<le> issue_line x \<and> issue_line x \<le> int (length (split text NL)) + 1"
      by simp
  qed
  have e: "\<forall>x \<in> set issues.
          issue_line x \<noteq> int (length (split text NL)) + 1
          \<and> issue_message x
              \<noteq> ''Consider adding blank line after header at line ''
                  @ str (int (length (split text NL)))
          \<and> issue_message x
              \<noteq> ''Consider adding blank line after code block at line ''
                  @ str (int (length (split text NL)))"
  proof (intro ballI conjI)
    fix x
    assume x: "x \<in> set issues"
    from b [OF x] show "issue_line x \<noteq> int (length (split text NL)) + 1"
      by simp
    show "issue_message x \<noteq> ''Consider adding blank line after header at line ''
                  @ str (int (length (split text NL)))"
      by (rule h [OF x])
    show "issue_message x \<noteq> ''Consider adding blank line after code block at line ''
                  @ str (int (length (split text NL)))"
      by (rule f [OF x])
  qed
  show ?thesis
  proof (rule exI)
    show "lint text = Inr issues
     \<and> (\<forall>x \<in> set issues.
          1 \<le> issue_line x \<and> issue_line x \<le> int (length (split text NL)) + 1)
     \<and> (\<forall>x \<in> set issues.
          issue_line x \<noteq> int (length (split text NL)) + 1
          \<and> issue_message x
              \<noteq> ''Consider adding blank line after header at line ''
                  @ str (int (length (split text NL)))
          \<and> issue_message x
              \<noteq> ''Consider adding blank line after code block at line ''
                  @ str (int (length (split text NL))))"
      by (rule conjI [OF l conjI [OF r e]])
  qed
qed

theorem issue_lines_in_range_witness:
  "lint (''# Title'' @ [NL] @ ''Some text'') = Inr [header_warning 1]
   \<and> header_warning 1 \<in> set [header_warning 1]
   \<and> 1 \<le> issue_line (header_warning 1)
   \<and> issue_line (header_warning 1)
       \<le> int (length (split (''# Title'' @ [NL] @ ''Some text'') NL)) + 1
   \<and> issue_line (header_warning 1)
       \<noteq> int (length (split (''# Title'' @ [NL] @ ''Some text'') NL)) + 1
   \<and> issue_message (header_warning 1)
       \<noteq> ''Consider adding blank line after header at line ''
           @ str (int (length (split (''# Title'' @ [NL] @ ''Some text'') NL)))
   \<and> issue_message (header_warning 1)
       \<noteq> ''Consider adding blank line after code block at line ''
           @ str (int (length (split (''# Title'' @ [NL] @ ''Some text'') NL)))"
proof -
  let ?T = "''# Title'' @ [NL] @ ''Some text''"
  have l: "lint ?T = Inr [header_warning 1]"
    by code_simp
  have m: "header_warning 1 \<in> set [header_warning 1]"
    by simp
  from issue_lines_in_range [of ?T]
  obtain issues where i: "lint ?T = Inr issues"
    and r: "\<forall>x \<in> set issues.
          1 \<le> issue_line x \<and> issue_line x \<le> int (length (split ?T NL)) + 1"
    and e: "\<forall>x \<in> set issues.
          issue_line x \<noteq> int (length (split ?T NL)) + 1
          \<and> issue_message x
              \<noteq> ''Consider adding blank line after header at line ''
                  @ str (int (length (split ?T NL)))
          \<and> issue_message x
              \<noteq> ''Consider adding blank line after code block at line ''
                  @ str (int (length (split ?T NL)))"
    by blast
  from i l have "issues = [header_warning 1]"
    by simp
  with r e have r': "1 \<le> issue_line (header_warning 1)
      \<and> issue_line (header_warning 1) \<le> int (length (split ?T NL)) + 1"
    and e': "issue_line (header_warning 1) \<noteq> int (length (split ?T NL)) + 1
          \<and> issue_message (header_warning 1)
              \<noteq> ''Consider adding blank line after header at line ''
                  @ str (int (length (split ?T NL)))
          \<and> issue_message (header_warning 1)
              \<noteq> ''Consider adding blank line after code block at line ''
                  @ str (int (length (split ?T NL)))"
    using m by blast+
  from l m r' e' show ?thesis
    by blast
qed

subsection \<open>The report store\<close>

text \<open>
  C9. In the application that the method leaves, the store holds the report of the text
  under the editor id, whatever was stored there before, and the entry of every other id
  is as it was. This holds also when a call to the toolkit raises after the store, as it
  does for a new, empty document whose pane has no widgets yet.
\<close>

theorem lint_replaces_one_entry:
  "\<exists>issues.
     lint text = Inr issues
     \<and> lint_issues (snd (lint_markdown editor_id text self)) editor_id = Some issues
     \<and> (\<forall>other. other \<noteq> editor_id
           \<longrightarrow> lint_issues (snd (lint_markdown editor_id text self)) other
               = lint_issues self other)"
proof -
  obtain issues where r: "lint text = Inr issues"
    using lint_total by blast
  show ?thesis
  proof (rule exI)
    show "lint text = Inr issues
     \<and> lint_issues (snd (lint_markdown editor_id text self)) editor_id = Some issues
     \<and> (\<forall>other. other \<noteq> editor_id
           \<longrightarrow> lint_issues (snd (lint_markdown editor_id text self)) other
               = lint_issues self other)"
      by (simp add: r lint_markdown_store [OF r])
  qed
qed

theorem lint_replaces_one_entry_witness:
  "''editor_0'' \<noteq> ''editor_1''
   \<and> fst (lint_markdown ''editor_1'' []
           \<lparr>lint_issues = [''editor_0'' \<mapsto> [image_warning 7], ''editor_1'' \<mapsto> [table_warning 9]],
            status_bar = Some ''Ready'',
            active_pane = Some \<lparr>pane_text_area = None, pane_markdown = None\<rparr>\<rparr>)
       = Inl NoMatches
   \<and> lint_issues (snd (lint_markdown ''editor_1'' []
           \<lparr>lint_issues = [''editor_0'' \<mapsto> [image_warning 7], ''editor_1'' \<mapsto> [table_warning 9]],
            status_bar = Some ''Ready'',
            active_pane = Some \<lparr>pane_text_area = None, pane_markdown = None\<rparr>\<rparr>)) ''editor_1''
       = Some []
   \<and> lint_issues (snd (lint_markdown ''editor_1'' []
           \<lparr>lint_issues = [''editor_0'' \<mapsto> [image_warning 7], ''editor_1'' \<mapsto> [table_warning 9]],
            status_bar = Some ''Ready'',
            active_pane = Some \<lparr>pane_text_area = None, pane_markdown = None\<rparr>\<rparr>)) ''editor_0''
       = Some [image_warning 7]"
proof -
  let ?S = "\<lparr>lint_issues = [''editor_0'' \<mapsto> [image_warning 7], ''editor_1'' \<mapsto> [table_warning 9]],
             status_bar = Some ''Ready'',
             active_pane = Some \<lparr>pane_text_area = None, pane_markdown = None\<rparr>\<rparr>"
  have ne: "''editor_0'' \<noteq> ''editor_1''"
    by simp
  have l: "lint [] = Inr []"
    by code_simp
  have o: "fst (lint_markdown ''editor_1'' [] ?S) = Inl NoMatches"
    by (simp add: lint_markdown_def Let_def l active_editor_id_def
          current_editor_and_preview_def query_one_def)
  from lint_replaces_one_entry [of "[]" "''editor_1''" ?S]
  obtain issues where i: "lint [] = Inr issues"
    and a: "lint_issues (snd (lint_markdown ''editor_1'' [] ?S)) ''editor_1'' = Some issues"
    and f: "\<forall>other. other \<noteq> ''editor_1''
              \<longrightarrow> lint_issues (snd (lint_markdown ''editor_1'' [] ?S)) other
                  = lint_issues ?S other"
    by blast
  from i l have "issues = []"
    by simp
  with a have a': "lint_issues (snd (lint_markdown ''editor_1'' [] ?S)) ''editor_1'' = Some []"
    by simp
  from f [rule_format, OF ne]
  have b': "lint_issues (snd (lint_markdown ''editor_1'' [] ?S)) ''editor_0''
            = Some [image_warning 7]"
    by simp
  show ?thesis
    by (rule conjI [OF ne conjI [OF o conjI [OF a' b']]])
qed

subsection \<open>The first loop does not know about code fences\<close>

text \<open>
  C10. The rules of the first loop run on every line, also on a line between two fences.
  In the text of the four lines \<^verbatim>\<open>```\<close>, \<^verbatim>\<open># Title\<close>, \<^verbatim>\<open>text\<close>, \<^verbatim>\<open>```\<close> the second
  line lies inside the fence that the first line opens, and the report is the
  header-spacing warning at line 3 that names line 2. In the text of the four lines
  \<^verbatim>\<open>```\<close>, \<^verbatim>\<open>a|b\<close>, \<^verbatim>\<open>c|d\<close>, \<^verbatim>\<open>```\<close> the third line lies inside the fence, and the
  report is the table-row warning at line 3.
\<close>

theorem rules_ignore_code_fences:
  "inside_before (split (''```'' @ [NL] @ ''# Title'' @ [NL] @ ''text'' @ [NL] @ ''```'') NL) 1
   \<and> lint (''```'' @ [NL] @ ''# Title'' @ [NL] @ ''text'' @ [NL] @ ''```'')
       = Inr [header_warning 2]
   \<and> inside_before (split (''```'' @ [NL] @ ''a|b'' @ [NL] @ ''c|d'' @ [NL] @ ''```'') NL) 2
   \<and> lint (''```'' @ [NL] @ ''a|b'' @ [NL] @ ''c|d'' @ [NL] @ ''```'')
       = Inr [table_warning 3]"
  by code_simp

end
